theory Spec2Isabelle
  imports Main
begin

section \<open>The signalling relay of server.js\<close>

text \<open>
  The relay is the \<^verbatim>\<open>io.on('connection', ...)\<close> block of server.js (lines 103 to 136).
  Its state is the global object \<^verbatim>\<open>rooms\<close> together with what socket.io keeps for
  the server: the connected sockets, the rooms of its adapter and the listeners each
  socket has registered.  Socket identifiers and room names are JavaScript strings; the
  adapter keeps both in one name space, because every socket is put into the room named
  by its own identifier when it connects (that is what makes
  \<^verbatim>\<open>io.to(data.target)\<close> reach a single socket).
\<close>

type_synonym sid = string
type_synonym room = string

text \<open>What a client receives: the event name with its argument.\<close>

datatype packet =
  UserConnected sid
| UserDisconnected sid
| SignalPacket sid string

type_synonym delivery = "sid \<times> packet"

datatype js_error = TypeError

text \<open>
  \<^verbatim>\<open>const rooms = {}\<close> is an ordinary object, so \<^verbatim>\<open>rooms[roomId]\<close> finds an own
  property (an array of socket identifiers), or else a member that every object inherits
  from \<^verbatim>\<open>Object.prototype\<close> (a function or an object: truthy, with neither
  \<^verbatim>\<open>push\<close> nor \<^verbatim>\<open>filter\<close>), or else \<^verbatim>\<open>undefined\<close>.
\<close>

datatype lookup = Undefined | Members "sid list" | Inherited

definition object_prototype :: "string list" where
  "object_prototype =
     [''constructor'', ''__defineGetter__'', ''__defineSetter__'', ''hasOwnProperty'',
      ''__lookupGetter__'', ''__lookupSetter__'', ''isPrototypeOf'',
      ''propertyIsEnumerable'', ''toString'', ''valueOf'', ''__proto__'',
      ''toLocaleString'']"

definition rooms_get :: "(room \<rightharpoonup> sid list) \<Rightarrow> room \<Rightarrow> lookup" where
  "rooms_get t roomId =
     (case t roomId of
        Some xs \<Rightarrow> Members xs
      | None \<Rightarrow> if roomId \<in> set object_prototype then Inherited else Undefined)"

text \<open>
  The server: \<open>rooms\<close> holds the own properties of the object \<^verbatim>\<open>rooms\<close>;
  \<open>sockets\<close> the connected sockets; \<open>adapter\<close> the members of each adapter room in
  insertion order (a JavaScript \<^verbatim>\<open>Set\<close>); \<open>disconnect_listeners\<close> the
  \<^verbatim>\<open>roomId\<close> captured by each \<^verbatim>\<open>'disconnect'\<close> listener of a socket, in
  registration order; \<open>signal_listeners\<close> the number of its \<^verbatim>\<open>'signal'\<close>
  listeners.  No listener catches exceptions and the file installs no handler for
  uncaught ones, so an exception thrown inside a listener ends the process: \<open>crashed\<close>.
\<close>

record server =
  rooms :: "room \<rightharpoonup> sid list"
  sockets :: "sid list"
  adapter :: "room \<Rightarrow> sid list"
  disconnect_listeners :: "sid \<Rightarrow> room list"
  signal_listeners :: "sid \<Rightarrow> nat"
  crashed :: bool

definition startup :: server where
  "startup =
     \<lparr>rooms = Map.empty, sockets = [], adapter = (\<lambda>r. []),
      disconnect_listeners = (\<lambda>c. []), signal_listeners = (\<lambda>c. 0), crashed = False\<rparr>"

subsection \<open>The socket.io operations the handlers call\<close>

text \<open>\<^verbatim>\<open>Set.prototype.add\<close>: an element already present keeps its place.\<close>

definition set_add :: "sid \<Rightarrow> sid list \<Rightarrow> sid list" where
  "set_add x xs = (if x \<in> set xs then xs else xs @ [x])"

text \<open>\<^verbatim>\<open>socket.join(r)\<close>.\<close>

definition socket_join :: "server \<Rightarrow> sid \<Rightarrow> room \<Rightarrow> server" where
  "socket_join s sock r = s\<lparr>adapter := (adapter s)(r := set_add sock (adapter s r))\<rparr>"

text \<open>
  The broadcast of socket.io 4's in-memory adapter to one room: the sockets of the
  excepted rooms are collected first, and every connected socket of the room that is
  not among them receives the packet once, in the room's order.
\<close>

definition broadcast :: "server \<Rightarrow> room \<Rightarrow> room list \<Rightarrow> packet \<Rightarrow> delivery list" where
  "broadcast s r except pkt =
     map (\<lambda>i. (i, pkt))
       (filter (\<lambda>i. i \<notin> set (concat (map (adapter s) except)) \<and> i \<in> set (sockets s))
          (adapter s r))"

text \<open>
  \<^verbatim>\<open>socket.to(r).emit(...)\<close> excepts the sender's own room;
  \<^verbatim>\<open>io.to(r).emit(...)\<close> excepts nothing.
\<close>

definition socket_to_emit :: "server \<Rightarrow> sid \<Rightarrow> room \<Rightarrow> packet \<Rightarrow> delivery list" where
  "socket_to_emit s sock r pkt = broadcast s r [sock] pkt"

definition io_to_emit :: "server \<Rightarrow> room \<Rightarrow> packet \<Rightarrow> delivery list" where
  "io_to_emit s r pkt = broadcast s r [] pkt"

text \<open>
  A socket that closes has left every room and is gone from the namespace before its
  \<^verbatim>\<open>'disconnect'\<close> listeners run.
\<close>

definition socket_close :: "server \<Rightarrow> sid \<Rightarrow> server" where
  "socket_close s sock =
     s\<lparr>sockets := removeAll sock (sockets s),
       adapter := (\<lambda>r. removeAll sock (adapter s r))\<rparr>"

subsection \<open>The three listeners\<close>

text \<open>
  The \<^verbatim>\<open>'join-room'\<close> listener (lines 109 to 135).  Line 110 creates the array when
  \<^verbatim>\<open>rooms[roomId]\<close> is falsy; line 113 calls \<^verbatim>\<open>push\<close> on whatever
  \<^verbatim>\<open>rooms[roomId]\<close> then is, which throws when it is an inherited member.  Lines 121
  and 129 register one more \<^verbatim>\<open>'disconnect'\<close> and one more \<^verbatim>\<open>'signal'\<close>
  listener on every call.
\<close>

definition join_room :: "server \<Rightarrow> sid \<Rightarrow> room \<Rightarrow> js_error + server \<times> delivery list" where
  "join_room s sock roomId =
     (let s0 = (if rooms_get (rooms s) roomId = Undefined
                then s\<lparr>rooms := (rooms s)(roomId \<mapsto> [])\<rparr> else s)
      in case rooms_get (rooms s0) roomId of
           Members xs \<Rightarrow>
             (let s1 = s0\<lparr>rooms := (rooms s0)(roomId \<mapsto> xs @ [sock])\<rparr>;
                  s2 = socket_join s1 sock roomId;
                  out = socket_to_emit s2 sock roomId (UserConnected sock);
                  s3 = s2\<lparr>disconnect_listeners :=
                            (disconnect_listeners s2)(sock := disconnect_listeners s2 sock @ [roomId]),
                          signal_listeners :=
                            (signal_listeners s2)(sock := Suc (signal_listeners s2 sock))\<rparr>
              in Inr (s3, out))
         | _ \<Rightarrow> Inl TypeError)"

text \<open>
  The \<^verbatim>\<open>'disconnect'\<close> listener (lines 121 to 126), for the \<^verbatim>\<open>roomId\<close> it
  captured.  Line 122 calls \<^verbatim>\<open>filter\<close> on \<^verbatim>\<open>rooms[roomId]\<close> with no guard: it
  throws when that is \<^verbatim>\<open>undefined\<close> or an inherited member.
\<close>

definition disconnect_listener :: "server \<Rightarrow> sid \<Rightarrow> room \<Rightarrow> js_error + server \<times> delivery list" where
  "disconnect_listener s sock roomId =
     (case rooms_get (rooms s) roomId of
        Members xs \<Rightarrow>
          (let ys = filter (\<lambda>i. i \<noteq> sock) xs;
               s1 = s\<lparr>rooms := (rooms s)(roomId \<mapsto> ys)\<rparr>;
               out = socket_to_emit s1 sock roomId (UserDisconnected sock);
               s2 = (if length ys = 0 then s1\<lparr>rooms := (rooms s1)(roomId := None)\<rparr> else s1)
           in Inr (s2, out))
      | _ \<Rightarrow> Inl TypeError)"

text \<open>The \<^verbatim>\<open>'signal'\<close> listener (lines 129 to 134); \<open>payload\<close> is \<^verbatim>\<open>data.signal\<close>.\<close>

record signal_data =
  target :: room
  payload :: string

definition signal_listener :: "server \<Rightarrow> sid \<Rightarrow> signal_data \<Rightarrow> delivery list" where
  "signal_listener s sock data = io_to_emit s (target data) (SignalPacket sock (payload data))"

subsection \<open>Events\<close>

text \<open>
  What reaches the server: a socket connects (socket.io gives it an identifier no
  connected socket has), a connected socket sends \<^verbatim>\<open>'join-room'\<close> or
  \<^verbatim>\<open>'signal'\<close> with a payload of the shape the listener destructures, a connected
  socket closes.  Listeners of one event run in registration order, and an exception
  thrown by one of them keeps the later ones from running.  A new socket has no
  listener for \<^verbatim>\<open>'signal'\<close> or \<^verbatim>\<open>'disconnect'\<close> until it sends
  \<^verbatim>\<open>'join-room'\<close>.  Once the process has ended, nothing is handled any more.
\<close>

datatype event =
  Connection sid
| JoinRoom sid room
| Signal sid signal_data
| Disconnect sid

fun emit_disconnect :: "server \<Rightarrow> sid \<Rightarrow> room list \<Rightarrow> server \<times> delivery list" where
  "emit_disconnect s sock [] = (s, [])"
| "emit_disconnect s sock (roomId # rest) =
     (case disconnect_listener s sock roomId of
        Inl e \<Rightarrow> (s\<lparr>crashed := True\<rparr>, [])
      | Inr (s1, out) \<Rightarrow>
          (case emit_disconnect s1 sock rest of (s2, out') \<Rightarrow> (s2, out @ out')))"

definition on_event :: "server \<Rightarrow> event \<Rightarrow> server \<times> delivery list" where
  "on_event s e =
     (if crashed s then (s, [])
      else case e of
        Connection sock \<Rightarrow>
          if sock \<in> set (sockets s) then (s, [])
          else (socket_join
                  (s\<lparr>sockets := sockets s @ [sock],
                     disconnect_listeners := (disconnect_listeners s)(sock := []),
                     signal_listeners := (signal_listeners s)(sock := 0)\<rparr>) sock sock, [])
      | JoinRoom sock roomId \<Rightarrow>
          if sock \<notin> set (sockets s) then (s, [])
          else (case join_room s sock roomId of
                  Inl e \<Rightarrow> (s\<lparr>crashed := True\<rparr>, [])
                | Inr r \<Rightarrow> r)
      | Signal sock data \<Rightarrow>
          if sock \<notin> set (sockets s) then (s, [])
          else (s, concat (replicate (signal_listeners s sock) (signal_listener s sock data)))
      | Disconnect sock \<Rightarrow>
          if sock \<notin> set (sockets s) then (s, [])
          else emit_disconnect (socket_close s sock) sock (disconnect_listeners s sock))"

fun run :: "server \<Rightarrow> event list \<Rightarrow> server \<times> delivery list" where
  "run s [] = (s, [])"
| "run s (e # es) =
     (case on_event s e of (s1, out) \<Rightarrow>
        (case run s1 es of (s2, out') \<Rightarrow> (s2, out @ out')))"

subsection \<open>Notions the properties below are stated with\<close>

text \<open>The member list of a room, empty when the table has no entry for it.\<close>

definition members :: "server \<Rightarrow> room \<Rightarrow> sid list" where
  "members s r = (case rooms s r of None \<Rightarrow> [] | Some xs \<Rightarrow> xs)"

text \<open>No entry of the table is an empty member list.\<close>

definition no_empty_room :: "server \<Rightarrow> bool" where
  "no_empty_room s \<longleftrightarrow> (\<forall>r xs. rooms s r = Some xs \<longrightarrow> xs \<noteq> [])"

text \<open>
  How the adapter's rooms relate to the table and to the connected sockets: a room of
  the adapter has no socket twice, and holds only members of the table's room of that
  name and the connected socket of that name, if there is one; a connected socket is in
  its own room.
\<close>

definition adapter_ok :: "server \<Rightarrow> bool" where
  "adapter_ok s \<longleftrightarrow>
     (\<forall>r. distinct (adapter s r) \<and>
          set (adapter s r) \<subseteq> set (members s r) \<union> {c. c = r \<and> r \<in> set (sockets s)}) \<and>
     (\<forall>c. c \<in> set (sockets s) \<longrightarrow> c \<in> set (adapter s c))"

text \<open>
  A sequence of \<^verbatim>\<open>'join-room'\<close> events for one room, one per socket of the list,
  with the deliveries each of them causes.
\<close>

fun join_all :: "server \<Rightarrow> room \<Rightarrow> sid list \<Rightarrow> server \<times> delivery list list" where
  "join_all s roomId [] = (s, [])"
| "join_all s roomId (c # cs) =
     (case on_event s (JoinRoom c roomId) of (s1, out) \<Rightarrow>
        (case join_all s1 roomId cs of (s2, outs) \<Rightarrow> (s2, out # outs)))"

text \<open>
  The \<^verbatim>\<open>'disconnect'\<close> listener of one socket and one room run twice in succession,
  as happens when the socket had sent \<^verbatim>\<open>'join-room'\<close> for that room twice.
\<close>

definition leave_twice :: "server \<Rightarrow> sid \<Rightarrow> room \<Rightarrow> js_error + server \<times> delivery list" where
  "leave_twice s sock roomId =
     (case disconnect_listener s sock roomId of
        Inl e \<Rightarrow> Inl e
      | Inr (s1, out1) \<Rightarrow>
          (case disconnect_listener s1 sock roomId of
             Inl e \<Rightarrow> Inl e
           | Inr (s2, out2) \<Rightarrow> Inr (s2, out1 @ out2)))"

section \<open>The HTTP endpoints of server.js\<close>

text \<open>
  Both endpoints call an upstream service with \<^verbatim>\<open>axios.post\<close>, whose promise either
  resolves with a response or rejects with an error.  Of an error the code reads
  \<^verbatim>\<open>error.response.status\<close> (absent when the upstream never answered) and, for the
  body of a 500, \<^verbatim>\<open>error.response?.data || error.message\<close>.
\<close>

datatype axios_error = AxiosError (status: "nat option") (details: string)

datatype 'a promise = Resolved 'a | Rejected axios_error

text \<open>What a request does to the outside: a POST to an upstream URL, or a timer.\<close>

datatype effect = Post string | Sleep int

text \<open>A response: the status and the members of the JSON object sent.\<close>

type_synonym http_response = "nat \<times> (string \<times> string) list"

subsection \<open>retryRequest\<close>

text \<open>
  \<^verbatim>\<open>retryRequest(url, data, headers, retries = 3, delay = 1000)\<close>, lines 28 to 40.
  Every attempt posts the same \<^verbatim>\<open>url\<close>, \<^verbatim>\<open>data\<close> and \<^verbatim>\<open>headers\<close>, and the
  upstream may answer each attempt differently: \<open>post n\<close> is the outcome of the
  \<open>n\<close>-th call of \<^verbatim>\<open>axios.post\<close> the request makes, counted from 0.  The result
  comes with the posts made and the delays slept, in order.
\<close>

function retryRequest ::
    "(nat \<Rightarrow> 'a promise) \<Rightarrow> string \<Rightarrow> nat \<Rightarrow> int \<Rightarrow> int \<Rightarrow> 'a promise \<times> effect list" where
  "retryRequest post url n retries delay =
     (case post n of
        Resolved response \<Rightarrow> (Resolved response, [Post url])
      | Rejected error \<Rightarrow>
          if status error = Some 429 \<and> retries > 0
          then (case retryRequest post url (Suc n) (retries - 1) (delay * 2) of
                  (result, effects) \<Rightarrow> (result, Post url # Sleep delay # effects))
          else (Rejected error, [Post url]))"
  by pat_completeness auto
termination
  by (relation "measure (\<lambda>(post, url, n, retries, delay). nat retries)") auto

subsection \<open>POST /detect-and-translate\<close>

text \<open>
  The request body, with the two members the handler reads typed as the interface
  gives them: a string, or absent.  A JavaScript string is falsy when it is empty.
\<close>

record translate_request =
  body_text :: "string option"
  targetLanguage :: "string option"

definition falsy :: "string option \<Rightarrow> bool" where
  "falsy v \<longleftrightarrow> (case v of None \<Rightarrow> True | Some x \<Rightarrow> x = [])"

text \<open>
  What the handler can tell about an upstream response.  For detection (lines 57 to
  61): reading \<^verbatim>\<open>detectResponse.data.data.detections[0][0].language\<close> throws a
  \<^verbatim>\<open>TypeError\<close> with some message, or \<^verbatim>\<open>detections\<close> is falsy, or the language is
  read (and is falsy when empty).  For translation (lines 82 to 86): reading
  \<^verbatim>\<open>translateResponse.data.data.translations[0].translatedText\<close> throws, or
  \<^verbatim>\<open>data.data\<close> or \<^verbatim>\<open>translations\<close> is falsy, or the translated text is read.
\<close>

datatype detect_data = DetectThrows string | NoDetections | Language string

datatype translate_data = TranslateThrows string | NoTranslations | Translation string

datatype chat_data = ChatThrows string | Content string

text \<open>
  The upstream services: \<open>detect q\<close> answers the detection call for the text \<open>q\<close>,
  \<open>translate q source target\<close> the translation call, and \<open>chat content n\<close> the
  \<open>n\<close>-th attempt of the chat completion call for a user message \<open>content\<close>.
\<close>

record upstream =
  detect :: "string \<Rightarrow> detect_data promise"
  translate :: "string \<Rightarrow> string \<Rightarrow> string \<Rightarrow> translate_data promise"
  chat :: "string option \<Rightarrow> nat \<Rightarrow> chat_data promise"

text \<open>The URLs, without the \<^verbatim>\<open>key\<close> query parameter.\<close>

definition detectUrl :: string where
  "detectUrl = ''https://translation.googleapis.com/language/translate/v2/detect''"

definition translateUrl :: string where
  "translateUrl = ''https://translation.googleapis.com/language/translate/v2''"

definition chatUrl :: string where
  "chatUrl = ''https://api.openai.com/v1/chat/completions''"

text \<open>The \<^verbatim>\<open>catch\<close> block of lines 93 to 100.\<close>

definition caught :: "string \<Rightarrow> http_response" where
  "caught d =
     (500, [(''error'', ''An error occurred during language detection or translation.''),
            (''details'', d)])"

text \<open>The handler, lines 43 to 101.\<close>

definition detect_and_translate :: "upstream \<Rightarrow> translate_request \<Rightarrow> http_response \<times> effect list" where
  "detect_and_translate up req =
     (case (body_text req, targetLanguage req) of
        (Some txt, Some tgt) \<Rightarrow>
          if falsy (Some txt) \<or> falsy (Some tgt)
          then ((400, [(''error'', ''Both 'text' and 'targetLanguage' are required.'')]), [])
          else
            (case detect up txt of
               Rejected error \<Rightarrow> (caught (details error), [Post detectUrl])
             | Resolved (DetectThrows msg) \<Rightarrow> (caught msg, [Post detectUrl])
             | Resolved NoDetections \<Rightarrow>
                 ((500, [(''error'', ''Failed to detect language'')]), [Post detectUrl])
             | Resolved (Language detectedLanguage) \<Rightarrow>
                 if falsy (Some detectedLanguage)
                 then ((500, [(''error'', ''Failed to detect language'')]), [Post detectUrl])
                 else if detectedLanguage = tgt
                 then ((200, [(''detectedLanguage'', detectedLanguage),
                              (''translatedText'', txt),
                              (''message'',
                               ''The detected language is the same as the target language.'')]),
                       [Post detectUrl])
                 else
                   (case translate up txt detectedLanguage tgt of
                      Rejected error \<Rightarrow>
                        (caught (details error), [Post detectUrl, Post translateUrl])
                    | Resolved (TranslateThrows msg) \<Rightarrow>
                        (caught msg, [Post detectUrl, Post translateUrl])
                    | Resolved NoTranslations \<Rightarrow>
                        ((500, [(''error'', ''Translation failed'')]),
                         [Post detectUrl, Post translateUrl])
                    | Resolved (Translation translatedText) \<Rightarrow>
                        ((200, [(''detectedLanguage'', detectedLanguage),
                                (''translatedText'', translatedText)]),
                         [Post detectUrl, Post translateUrl])))
      | _ \<Rightarrow> ((400, [(''error'', ''Both 'text' and 'targetLanguage' are required.'')]), []))"

subsection \<open>POST /summarize-conversation\<close>

text \<open>
  The handler, lines 139 to 168.  It reads \<^verbatim>\<open>conversationText\<close> and checks nothing
  before it calls \<^verbatim>\<open>retryRequest\<close> with the default \<^verbatim>\<open>retries\<close> and
  \<^verbatim>\<open>delay\<close>.  \<open>trim\<close> stands for \<^verbatim>\<open>String.prototype.trim\<close>.
\<close>

record summarize_request =
  conversationText :: "string option"

definition summarize_conversation ::
    "upstream \<Rightarrow> (string \<Rightarrow> string) \<Rightarrow> summarize_request \<Rightarrow> http_response \<times> effect list" where
  "summarize_conversation up trim req =
     (case retryRequest (chat up (conversationText req)) chatUrl 0 3 1000 of
        (Resolved (Content content), effects) \<Rightarrow> ((200, [(''summary'', trim content)]), effects)
      | (Resolved (ChatThrows msg), effects) \<Rightarrow>
          ((500, [(''error'', ''Failed to summarize conversation'')]), effects)
      | (Rejected error, effects) \<Rightarrow>
          ((500, [(''error'', ''Failed to summarize conversation'')]), effects))"

text \<open>An upstream outcome that makes \<^verbatim>\<open>retryRequest\<close> consider a retry.\<close>

definition rate_limited :: "'a promise \<Rightarrow> bool" where
  "rate_limited p \<longleftrightarrow> (case p of Resolved r \<Rightarrow> False | Rejected e \<Rightarrow> status e = Some 429)"

section \<open>Properties of the relay\<close>

lemmas relay_defs = startup_def on_event_def join_room_def disconnect_listener_def
  signal_listener_def rooms_get_def object_prototype_def socket_join_def set_add_def
  socket_to_emit_def io_to_emit_def broadcast_def socket_close_def Let_def

subsection \<open>What one listener changes\<close>

lemma disconnect_listener_Inr:
  assumes "disconnect_listener s c r = Inr (s', out)"
  shows "\<exists>xs. rooms s r = Some xs \<and>
           s' = s\<lparr>rooms := (if filter (\<lambda>i. i \<noteq> c) xs = [] then (rooms s)(r := None)
                             else (rooms s)(r \<mapsto> filter (\<lambda>i. i \<noteq> c) xs))\<rparr> \<and>
           out = broadcast s r [c] (UserDisconnected c)"
  using assms
  by (auto simp: disconnect_listener_def rooms_get_def socket_to_emit_def Let_def
      broadcast_def split: option.splits if_splits)

lemma disconnect_listener_Some:
  assumes "rooms s r = Some xs"
  shows "disconnect_listener s c r = Inr
           (s\<lparr>rooms := (if filter (\<lambda>i. i \<noteq> c) xs = [] then (rooms s)(r := None)
                             else (rooms s)(r \<mapsto> filter (\<lambda>i. i \<noteq> c) xs))\<rparr>,
            broadcast s r [c] (UserDisconnected c))"
  using assms
  by (auto simp: disconnect_listener_def rooms_get_def socket_to_emit_def Let_def
      broadcast_def split: option.splits if_splits)

lemma disconnect_listener_None:
  "rooms s r = None \<Longrightarrow> disconnect_listener s c r = Inl TypeError"
  by (simp add: disconnect_listener_def rooms_get_def)

lemma join_room_Inr:
  assumes "join_room s c r = Inr (s', out)"
  shows "rooms_get (rooms s) r \<noteq> Inherited \<and>
         s' = s\<lparr>rooms := (rooms s)(r \<mapsto> members s r @ [c]),
                adapter := (adapter s)(r := set_add c (adapter s r)),
                disconnect_listeners := (disconnect_listeners s)(c := disconnect_listeners s c @ [r]),
                signal_listeners := (signal_listeners s)(c := Suc (signal_listeners s c))\<rparr> \<and>
         out = broadcast (s\<lparr>adapter := (adapter s)(r := set_add c (adapter s r))\<rparr>) r [c] (UserConnected c)"
  using assms
  by (auto simp: join_room_def rooms_get_def socket_to_emit_def socket_join_def Let_def members_def
      broadcast_def split: option.splits if_splits)

lemma join_room_ok:
  assumes "rooms_get (rooms s) r \<noteq> Inherited"
  shows "join_room s c r = Inr
          (s\<lparr>rooms := (rooms s)(r \<mapsto> members s r @ [c]),
                adapter := (adapter s)(r := set_add c (adapter s r)),
                disconnect_listeners := (disconnect_listeners s)(c := disconnect_listeners s c @ [r]),
                signal_listeners := (signal_listeners s)(c := Suc (signal_listeners s c))\<rparr>,
           broadcast (s\<lparr>adapter := (adapter s)(r := set_add c (adapter s r))\<rparr>) r [c] (UserConnected c))"
  using assms
  by (auto simp: join_room_def rooms_get_def socket_to_emit_def socket_join_def Let_def members_def
      broadcast_def split: option.splits if_splits)

lemma join_room_Inherited:
  "rooms_get (rooms s) r = Inherited \<Longrightarrow> join_room s c r = Inl TypeError"
  by (simp add: join_room_def)

subsection \<open>No empty room\<close>

lemma no_empty_room_startup: "no_empty_room startup"
  by (simp add: no_empty_room_def startup_def)

lemma no_empty_room_crashed [simp]: "no_empty_room (s\<lparr>crashed := b\<rparr>) = no_empty_room s"
  by (simp add: no_empty_room_def)

lemma no_empty_room_join:
  "no_empty_room s \<Longrightarrow> join_room s c r = Inr (s', out) \<Longrightarrow> no_empty_room s'"
  by (drule join_room_Inr) (auto simp: no_empty_room_def)

lemma no_empty_room_disconnect_listener:
  "no_empty_room s \<Longrightarrow> disconnect_listener s c r = Inr (s', out) \<Longrightarrow> no_empty_room s'"
  by (drule disconnect_listener_Inr) (fastforce simp: no_empty_room_def split: if_splits)

lemma no_empty_room_emit_disconnect:
  "no_empty_room s \<Longrightarrow> no_empty_room (fst (emit_disconnect s c rs))"
proof (induction rs arbitrary: s)
  case Nil
  then show ?case by simp
next
  case (Cons r rs)
  show ?case
  proof (cases "disconnect_listener s c r")
    case (Inl e)
    with Cons.prems show ?thesis by simp
  next
    case (Inr p)
    obtain s1 out where p: "p = (s1, out)" by (cases p)
    from Cons.prems Inr p have "no_empty_room s1"
      by (auto intro: no_empty_room_disconnect_listener)
    then have "no_empty_room (fst (emit_disconnect s1 c rs))" by (rule Cons.IH)
    with Inr p show ?thesis by (simp add: case_prod_beta)
  qed
qed

lemma no_empty_room_socket_close [simp]:
  "no_empty_room (socket_close s c) = no_empty_room s"
  by (simp add: no_empty_room_def socket_close_def)

lemma no_empty_room_on_event:
  assumes "no_empty_room s"
  shows "no_empty_room (fst (on_event s e))"
proof (cases e)
  case (Connection c)
  with assms show ?thesis
    by (simp add: on_event_def socket_join_def no_empty_room_def)
next
  case (JoinRoom c r)
  with assms show ?thesis
    by (auto simp: on_event_def split: sum.splits intro: no_empty_room_join)
next
  case (Signal c d)
  with assms show ?thesis by (simp add: on_event_def)
next
  case (Disconnect c)
  with assms show ?thesis
    by (simp add: on_event_def no_empty_room_emit_disconnect)
qed

lemma no_empty_room_run:
  "no_empty_room s \<Longrightarrow> no_empty_room (fst (run s es))"
proof (induction es arbitrary: s)
  case Nil
  then show ?case by simp
next
  case (Cons e es)
  from Cons.prems have "no_empty_room (fst (on_event s e))"
    by (rule no_empty_room_on_event)
  then have "no_empty_room (fst (run (fst (on_event s e)) es))" by (rule Cons.IH)
  then show ?case by (simp add: case_prod_beta)
qed


subsection \<open>The adapter against the table\<close>

lemma members_simps [simp]:
  "rooms s r = None \<Longrightarrow> members s r = []"
  "rooms s r = Some xs \<Longrightarrow> members s r = xs"
  by (simp_all add: members_def)

lemma distinct_set_add: "distinct xs \<Longrightarrow> distinct (set_add x xs)"
  by (simp add: set_add_def)

lemma set_set_add [simp]: "set (set_add x xs) = insert x (set xs)"
  by (auto simp: set_add_def)

lemma adapter_okI:
  assumes "\<And>r. distinct (adapter s r)"
    and "\<And>r x. x \<in> set (adapter s r) \<Longrightarrow> x \<in> set (members s r) \<or> (x = r \<and> r \<in> set (sockets s))"
    and "\<And>c. c \<in> set (sockets s) \<Longrightarrow> c \<in> set (adapter s c)"
  shows "adapter_ok s"
  using assms unfolding adapter_ok_def by blast

lemma adapter_ok_distinct: "adapter_ok s \<Longrightarrow> distinct (adapter s r)"
  by (simp add: adapter_ok_def)

lemma adapter_ok_member:
  "adapter_ok s \<Longrightarrow> x \<in> set (adapter s r) \<Longrightarrow>
     x \<in> set (members s r) \<or> (x = r \<and> r \<in> set (sockets s))"
  unfolding adapter_ok_def by blast

lemma adapter_ok_own: "adapter_ok s \<Longrightarrow> c \<in> set (sockets s) \<Longrightarrow> c \<in> set (adapter s c)"
  by (simp add: adapter_ok_def)

lemma adapter_ok_startup: "adapter_ok startup"
  by (simp add: adapter_ok_def startup_def)

lemma adapter_ok_crashed [simp]: "adapter_ok (s\<lparr>crashed := b\<rparr>) = adapter_ok s"
  by (simp add: adapter_ok_def members_def)

lemma adapter_ok_connection:
  assumes "adapter_ok s"
  shows "adapter_ok (socket_join
                  (s\<lparr>sockets := sockets s @ [c],
                     disconnect_listeners := dl,
                     signal_listeners := sl\<rparr>) c c)"
proof (rule adapter_okI)
  fix r
  show "distinct (adapter (socket_join (s\<lparr>sockets := sockets s @ [c],
          disconnect_listeners := dl, signal_listeners := sl\<rparr>) c c) r)"
    using adapter_ok_distinct [OF assms]
    by (simp add: socket_join_def distinct_set_add)
next
  fix r x
  assume "x \<in> set (adapter (socket_join (s\<lparr>sockets := sockets s @ [c],
          disconnect_listeners := dl, signal_listeners := sl\<rparr>) c c) r)"
  then show "x \<in> set (members (socket_join (s\<lparr>sockets := sockets s @ [c],
          disconnect_listeners := dl, signal_listeners := sl\<rparr>) c c) r) \<or>
        (x = r \<and> r \<in> set (sockets (socket_join (s\<lparr>sockets := sockets s @ [c],
          disconnect_listeners := dl, signal_listeners := sl\<rparr>) c c)))"
    using adapter_ok_member [OF assms, of x r]
    by (auto simp: socket_join_def members_def split: if_splits)
next
  fix d
  assume "d \<in> set (sockets (socket_join (s\<lparr>sockets := sockets s @ [c],
          disconnect_listeners := dl, signal_listeners := sl\<rparr>) c c))"
  then show "d \<in> set (adapter (socket_join (s\<lparr>sockets := sockets s @ [c],
          disconnect_listeners := dl, signal_listeners := sl\<rparr>) c c) d)"
    using adapter_ok_own [OF assms, of d]
    by (auto simp: socket_join_def)
qed

lemma adapter_ok_join:
  assumes "adapter_ok s" and "join_room s c r = Inr (s', out)"
  shows "adapter_ok s'"
proof -
  from assms(2) have s': "s' = s\<lparr>rooms := (rooms s)(r \<mapsto> members s r @ [c]),
                adapter := (adapter s)(r := set_add c (adapter s r)),
                disconnect_listeners := (disconnect_listeners s)(c := disconnect_listeners s c @ [r]),
                signal_listeners := (signal_listeners s)(c := Suc (signal_listeners s c))\<rparr>"
    by (blast dest: join_room_Inr)
  show ?thesis
  proof (rule adapter_okI)
    fix q
    show "distinct (adapter s' q)"
      using adapter_ok_distinct [OF assms(1)] by (simp add: s' distinct_set_add)
  next
    fix q x
    assume "x \<in> set (adapter s' q)"
    then show "x \<in> set (members s' q) \<or> (x = q \<and> q \<in> set (sockets s'))"
      using adapter_ok_member [OF assms(1), of x q]
      by (auto simp: s' members_def split: if_splits)
  next
    fix d
    assume "d \<in> set (sockets s')"
    then show "d \<in> set (adapter s' d)"
      using adapter_ok_own [OF assms(1), of d] by (auto simp: s')
  qed
qed

lemma adapter_ok_socket_close:
  assumes "adapter_ok s"
  shows "adapter_ok (socket_close s c)"
proof (rule adapter_okI)
  fix r
  show "distinct (adapter (socket_close s c) r)"
    using adapter_ok_distinct [OF assms] by (simp add: socket_close_def distinct_removeAll)
next
  fix r x
  assume "x \<in> set (adapter (socket_close s c) r)"
  then show "x \<in> set (members (socket_close s c) r) \<or>
             (x = r \<and> r \<in> set (sockets (socket_close s c)))"
    using adapter_ok_member [OF assms, of x r]
    by (auto simp: socket_close_def members_def)
next
  fix d
  assume "d \<in> set (sockets (socket_close s c))"
  then show "d \<in> set (adapter (socket_close s c) d)"
    using adapter_ok_own [OF assms, of d] by (auto simp: socket_close_def)
qed

lemma socket_close_gone: "c \<notin> set (adapter (socket_close s c) r)"
  by (simp add: socket_close_def)

lemma adapter_ok_disconnect_listener:
  assumes "adapter_ok s" and "\<And>q. c \<notin> set (adapter s q)"
    and "disconnect_listener s c r = Inr (s', out)"
  shows "adapter_ok s' \<and> adapter s' = adapter s"
proof -
  from assms(3) obtain xs where xs: "rooms s r = Some xs"
    and s': "s' = s\<lparr>rooms := (if filter (\<lambda>i. i \<noteq> c) xs = [] then (rooms s)(r := None)
                             else (rooms s)(r \<mapsto> filter (\<lambda>i. i \<noteq> c) xs))\<rparr>"
    by (blast dest: disconnect_listener_Inr)
  have m: "members s' q = (if q = r then filter (\<lambda>i. i \<noteq> c) xs else members s q)" for q
    by (simp add: s' members_def)
  have a: "adapter s' = adapter s" and k: "sockets s' = sockets s"
    by (simp_all add: s')
  have "adapter_ok s'"
  proof (rule adapter_okI)
    fix q
    show "distinct (adapter s' q)"
      using adapter_ok_distinct [OF assms(1)] by (simp add: a)
  next
    fix q x
    assume "x \<in> set (adapter s' q)"
    then show "x \<in> set (members s' q) \<or> (x = q \<and> q \<in> set (sockets s'))"
      using adapter_ok_member [OF assms(1), of x q] assms(2) [of q] xs
      by (auto simp: a k m)
  next
    fix d
    assume "d \<in> set (sockets s')"
    then show "d \<in> set (adapter s' d)"
      using adapter_ok_own [OF assms(1), of d] by (simp add: a k)
  qed
  with a show ?thesis by simp
qed

lemma adapter_ok_emit_disconnect:
  "adapter_ok s \<Longrightarrow> (\<And>q. c \<notin> set (adapter s q)) \<Longrightarrow>
     adapter_ok (fst (emit_disconnect s c rs))"
proof (induction rs arbitrary: s)
  case Nil
  then show ?case by simp
next
  case (Cons r rs)
  show ?case
  proof (cases "disconnect_listener s c r")
    case (Inl e)
    with Cons.prems show ?thesis by simp
  next
    case (Inr p)
    obtain s1 out where p: "p = (s1, out)" by (cases p)
    from Inr p have "adapter_ok s1 \<and> adapter s1 = adapter s"
      using adapter_ok_disconnect_listener [OF Cons.prems(1), of c r s1 out] Cons.prems(2)
      by simp
    with Cons.prems(2) have "adapter_ok (fst (emit_disconnect s1 c rs))"
      by (intro Cons.IH) simp_all
    with Inr p show ?thesis by (simp add: case_prod_beta)
  qed
qed

lemma adapter_ok_on_event:
  assumes "adapter_ok s"
  shows "adapter_ok (fst (on_event s e))"
proof (cases e)
  case (Connection c)
  with assms show ?thesis
    by (simp add: on_event_def adapter_ok_connection)
next
  case (JoinRoom c r)
  with assms show ?thesis
    by (auto simp: on_event_def split: sum.splits intro: adapter_ok_join)
next
  case (Signal c d)
  with assms show ?thesis by (simp add: on_event_def)
next
  case (Disconnect c)
  with assms show ?thesis
    by (simp add: on_event_def adapter_ok_emit_disconnect adapter_ok_socket_close
        socket_close_gone)
qed

lemma adapter_ok_run:
  "adapter_ok s \<Longrightarrow> adapter_ok (fst (run s es))"
proof (induction es arbitrary: s)
  case Nil
  then show ?case by simp
next
  case (Cons e es)
  from Cons.prems have "adapter_ok (fst (on_event s e))"
    by (rule adapter_ok_on_event)
  then have "adapter_ok (fst (run (fst (on_event s e)) es))" by (rule Cons.IH)
  then show ?case by (simp add: case_prod_beta)
qed

text \<open>What the invariant says about a name the table has no room for.\<close>

lemma adapter_of_unknown_room:
  assumes "adapter_ok s" and "rooms s b = None"
  shows "adapter s b = (if b \<in> set (sockets s) then [b] else [])"
proof -
  have sub: "x = b \<and> b \<in> set (sockets s)" if "x \<in> set (adapter s b)" for x
    using adapter_ok_member [OF assms(1) that] assms(2) by simp
  show ?thesis
  proof (cases "adapter s b")
    case Nil
    with adapter_ok_own [OF assms(1), of b] show ?thesis by auto
  next
    case (Cons x xs)
    with sub [of x] have x: "x = b" "b \<in> set (sockets s)" by simp_all
    have "xs = []"
    proof (cases xs)
      case Nil
      then show ?thesis .
    next
      case (Cons y ys)
      with \<open>adapter s b = x # xs\<close> sub [of y] have "y = b" by simp
      with Cons \<open>adapter s b = x # xs\<close> x adapter_ok_distinct [OF assms(1), of b]
      show ?thesis by simp
    qed
    with Cons x show ?thesis by simp
  qed
qed

subsection \<open>A sequence of joins\<close>

lemma join_event_ok:
  assumes "\<not> crashed s" and "c \<in> set (sockets s)"
    and "rooms_get (rooms s) r \<noteq> Inherited"
  shows "on_event s (JoinRoom c r) =
          (s\<lparr>rooms := (rooms s)(r \<mapsto> members s r @ [c]),
                adapter := (adapter s)(r := set_add c (adapter s r)),
                disconnect_listeners := (disconnect_listeners s)(c := disconnect_listeners s c @ [r]),
                signal_listeners := (signal_listeners s)(c := Suc (signal_listeners s c))\<rparr>,
           broadcast (s\<lparr>adapter := (adapter s)(r := set_add c (adapter s r))\<rparr>) r [c] (UserConnected c))"
  using assms by (simp add: on_event_def join_room_ok)

lemma join_notifies_earlier_members:
  assumes "adapter s r = pre" and "adapter s c = [c]" and "c \<notin> set pre"
    and "set pre \<subseteq> set (sockets s)" and "c \<noteq> r"
  shows "broadcast (s\<lparr>adapter := (adapter s)(r := set_add c (adapter s r))\<rparr>) r [c] pkt =
           map (\<lambda>d. (d, pkt)) pre"
proof -
  have "filter (\<lambda>i. i \<noteq> c \<and> i \<in> set (sockets s)) pre = pre"
    using assms(3,4) by (intro filter_True) auto
  with assms show ?thesis
    by (simp add: broadcast_def set_add_def)
qed

lemma join_all_from_members:
  assumes "\<not> crashed s" and "rooms_get (rooms s) r \<noteq> Inherited"
    and "members s r = pre" and "adapter s r = pre"
    and "distinct (pre @ cs)" and "set (pre @ cs) \<subseteq> set (sockets s)"
    and "\<And>c. c \<in> set cs \<Longrightarrow> adapter s c = [c]" and "r \<notin> set cs"
    and "join_all s r cs = (s', outs)"
  shows "rooms s' r = (if cs = [] then rooms s r else Some (pre @ cs)) \<and>
         length outs = length cs \<and>
         (\<forall>i<length cs. outs ! i = map (\<lambda>d. (d, UserConnected (cs ! i))) (pre @ take i cs))"
  using assms
proof (induction cs arbitrary: s pre outs)
  case Nil
  then show ?case by simp
next
  case (Cons c cs)
  let ?s1 = "s\<lparr>rooms := (rooms s)(r \<mapsto> members s r @ [c]),
                adapter := (adapter s)(r := set_add c (adapter s r)),
                disconnect_listeners := (disconnect_listeners s)(c := disconnect_listeners s c @ [r]),
                signal_listeners := (signal_listeners s)(c := Suc (signal_listeners s c))\<rparr>"
  let ?out = "map (\<lambda>d. (d, UserConnected c)) pre"
  from Cons.prems have c: "c \<in> set (sockets s)" "c \<notin> set pre" "c \<noteq> r" "adapter s c = [c]"
    by auto
  have "broadcast (s\<lparr>adapter := (adapter s)(r := set_add c (adapter s r))\<rparr>) r [c]
          (UserConnected c) = ?out"
    using Cons.prems(4) c(4) c(2) _ c(3)
    by (rule join_notifies_earlier_members) (use Cons.prems(6) in auto)
  with Cons.prems(1,2) c(1) have ev: "on_event s (JoinRoom c r) = (?s1, ?out)"
    by (simp add: join_event_ok)
  obtain outs' where rest: "join_all ?s1 r cs = (s', outs')" and outs: "outs = ?out # outs'"
    using Cons.prems(9) ev by (auto split: prod.splits)
  have "rooms s' r = (if cs = [] then rooms ?s1 r else Some ((pre @ [c]) @ cs)) \<and>
         length outs' = length cs \<and>
         (\<forall>i<length cs. outs' ! i =
            map (\<lambda>d. (d, UserConnected (cs ! i))) ((pre @ [c]) @ take i cs))"
  proof (rule Cons.IH [OF _ _ _ _ _ _ _ _ rest])
    show "\<not> crashed ?s1" using Cons.prems(1) by simp
    show "rooms_get (rooms ?s1) r \<noteq> Inherited" by (simp add: rooms_get_def)
    show "members ?s1 r = pre @ [c]" using Cons.prems(3) by (simp add: members_def)
    show "adapter ?s1 r = pre @ [c]" using Cons.prems(4) c(2) by (simp add: set_add_def)
    show "distinct ((pre @ [c]) @ cs)" using Cons.prems(5) by simp
    show "set ((pre @ [c]) @ cs) \<subseteq> set (sockets ?s1)" using Cons.prems(6) by simp
    show "adapter ?s1 d = [d]" if "d \<in> set cs" for d
      using that Cons.prems(7) [of d] Cons.prems(8) by auto
    show "r \<notin> set cs" using Cons.prems(8) by simp
  qed
  then have r: "rooms s' r = Some (pre @ c # cs)" and l: "length outs' = length cs"
    and n: "\<And>i. i < length cs \<Longrightarrow> outs' ! i =
            map (\<lambda>d. (d, UserConnected (cs ! i))) (pre @ c # take i cs)"
    using Cons.prems(3) by (auto simp: members_def)
  have "outs ! i = map (\<lambda>d. (d, UserConnected ((c # cs) ! i))) (pre @ take i (c # cs))"
    if "i < length (c # cs)" for i
  proof (cases i)
    case 0
    then show ?thesis by (simp add: outs)
  next
    case (Suc j)
    with that n [of j] show ?thesis by (simp add: outs)
  qed
  with r l outs show ?case by simp
qed

subsection \<open>Forwarding a signal\<close>

lemma signal_listener_unknown_room:
  assumes "adapter_ok s" and "rooms s b = None"
  shows "signal_listener s a \<lparr>target = b, payload = p\<rparr> =
           (if b \<in> set (sockets s) then [(b, SignalPacket a p)] else [])"
  using adapter_of_unknown_room [OF assms]
  by (simp add: signal_listener_def io_to_emit_def broadcast_def)

subsection \<open>Listeners of a socket that never joined\<close>

lemma emit_disconnect_listeners:
  "disconnect_listeners (fst (emit_disconnect s c rs)) = disconnect_listeners s \<and>
   signal_listeners (fst (emit_disconnect s c rs)) = signal_listeners s"
proof (induction rs arbitrary: s)
  case Nil
  then show ?case by simp
next
  case (Cons r rs)
  show ?case
  proof (cases "disconnect_listener s c r")
    case (Inl e)
    then show ?thesis by simp
  next
    case (Inr p)
    obtain s1 out where p: "p = (s1, out)" by (cases p)
    from Inr p have "disconnect_listeners s1 = disconnect_listeners s \<and>
        signal_listeners s1 = signal_listeners s"
      by (auto dest!: disconnect_listener_Inr)
    with Inr p Cons.IH [of s1] show ?thesis by (simp add: case_prod_beta)
  qed
qed

lemma no_listeners_on_event:
  assumes "disconnect_listeners s c = []" and "signal_listeners s c = 0"
    and "\<And>r. e \<noteq> JoinRoom c r"
  shows "disconnect_listeners (fst (on_event s e)) c = [] \<and>
         signal_listeners (fst (on_event s e)) c = 0"
proof (cases e)
  case (Connection d)
  with assms show ?thesis by (simp add: on_event_def socket_join_def)
next
  case (JoinRoom d r)
  with assms(3) have "d \<noteq> c" by auto
  with JoinRoom assms(1,2) show ?thesis
    by (auto simp: on_event_def split: sum.splits dest!: join_room_Inr)
next
  case (Signal d x)
  with assms show ?thesis by (simp add: on_event_def)
next
  case (Disconnect d)
  with assms show ?thesis
    by (simp add: on_event_def emit_disconnect_listeners socket_close_def)
qed

lemma no_listeners_run:
  assumes "disconnect_listeners s c = []" and "signal_listeners s c = 0"
    and "\<And>r. JoinRoom c r \<notin> set es"
  shows "disconnect_listeners (fst (run s es)) c = [] \<and>
         signal_listeners (fst (run s es)) c = 0"
  using assms
proof (induction es arbitrary: s)
  case Nil
  then show ?case by simp
next
  case (Cons e es)
  have "disconnect_listeners (fst (on_event s e)) c = [] \<and>
         signal_listeners (fst (on_event s e)) c = 0"
    using Cons.prems(1,2)
  proof (rule no_listeners_on_event)
    fix r show "e \<noteq> JoinRoom c r" using Cons.prems(3) [of r] by auto
  qed
  then have "disconnect_listeners (fst (run (fst (on_event s e)) es)) c = [] \<and>
         signal_listeners (fst (run (fst (on_event s e)) es)) c = 0"
    using Cons.prems(3) by (intro Cons.IH) auto
  then show ?case by (simp add: case_prod_beta)
qed

subsection \<open>Entries of the table come and go\<close>

lemma emit_disconnect_creates_nothing:
  "rooms s r = None \<Longrightarrow> rooms (fst (emit_disconnect s c rs)) r = None"
proof (induction rs arbitrary: s)
  case Nil
  then show ?case by simp
next
  case (Cons q rs)
  show ?case
  proof (cases "disconnect_listener s c q")
    case (Inl e)
    with Cons.prems show ?thesis by simp
  next
    case (Inr p)
    obtain s1 out where p: "p = (s1, out)" by (cases p)
    from Inr p Cons.prems have "rooms s1 r = None"
      by (auto dest!: disconnect_listener_Inr split: if_splits)
    then have "rooms (fst (emit_disconnect s1 c rs)) r = None" by (rule Cons.IH)
    with Inr p show ?thesis by (simp add: case_prod_beta)
  qed
qed

lemma room_created_by_join:
  assumes "rooms s r = None" and "rooms (fst (on_event s e)) r \<noteq> None"
  shows "\<exists>c. e = JoinRoom c r"
proof (cases e)
  case (Connection c)
  with assms show ?thesis by (simp add: on_event_def socket_join_def split: if_splits)
next
  case (JoinRoom c q)
  with assms show ?thesis
    by (auto simp: on_event_def split: if_splits sum.splits dest!: join_room_Inr)
next
  case (Signal c d)
  with assms show ?thesis by (simp add: on_event_def split: if_splits)
next
  case (Disconnect c)
  from assms(1) have "rooms (socket_close s c) r = None"
    by (simp add: socket_close_def)
  from emit_disconnect_creates_nothing [OF this] Disconnect assms show ?thesis
    by (simp add: on_event_def split: if_splits)
qed

lemma last_member_leaves:
  assumes "rooms s r = Some xs" and "set xs \<subseteq> {c}"
  shows "\<exists>s' out. disconnect_listener s c r = Inr (s', out) \<and> rooms s' r = None"
proof -
  from assms(2) have "filter (\<lambda>i. i \<noteq> c) xs = []"
    by (auto simp: filter_empty_conv)
  with disconnect_listener_Some [OF assms(1), of c] show ?thesis by simp
qed

section \<open>Properties of the HTTP endpoints\<close>

declare retryRequest.simps [simp del]

lemma retryRequest_passes:
  "\<not> rate_limited (post n) \<Longrightarrow> retryRequest post url n retries delay = (post n, [Post url])"
  by (subst retryRequest.simps) (auto simp: rate_limited_def split: promise.splits)

lemma retryRequest_exhausted:
  "retries \<le> 0 \<Longrightarrow> retryRequest post url n retries delay = (post n, [Post url])"
  by (subst retryRequest.simps) (auto split: promise.splits)

lemma retryRequest_retries:
  "rate_limited (post n) \<Longrightarrow> 0 < retries \<Longrightarrow>
     retryRequest post url n retries delay =
       (fst (retryRequest post url (Suc n) (retries - 1) (delay * 2)),
        Post url # Sleep delay # snd (retryRequest post url (Suc n) (retries - 1) (delay * 2)))"
  by (subst retryRequest.simps)
    (auto simp: rate_limited_def case_prod_beta split: promise.splits)

lemma retryRequest_first_post:
  "\<exists>rest. snd (retryRequest post url n retries delay) = Post url # rest"
  by (subst retryRequest.simps) (auto simp: case_prod_beta split: promise.splits)

lemma retryRequest_all_rate_limited:
  assumes "\<forall>n\<le>3. rate_limited (post n)"
  shows "retryRequest post url 0 3 1000 =
        (post 3, [Post url, Sleep 1000, Post url, Sleep 2000, Post url, Sleep 4000, Post url])"
proof -
  from assms have "rate_limited (post 0)" "rate_limited (post (Suc 0))"
    "rate_limited (post (Suc (Suc 0)))" by simp_all
  then show ?thesis
    by (simp add: retryRequest_retries retryRequest_exhausted numeral_3_eq_3)
qed

lemma retryRequest_settles:
  assumes "j \<le> 3" and "\<forall>i<j. rate_limited (post i)" and "\<not> rate_limited (post j)"
  shows "retryRequest post url 0 3 1000 =
        (post j, concat (map (\<lambda>d. [Post url, Sleep d]) (take j [1000, 2000, 4000])) @ [Post url])"
proof -
  from assms(1) consider "j = 0" | "j = Suc 0" | "j = Suc (Suc 0)" | "j = Suc (Suc (Suc 0))"
    by arith
  then show ?thesis
  proof cases
    case 1
    with assms show ?thesis by (simp add: retryRequest_passes)
  next
    case 2
    with assms have "rate_limited (post 0)" "\<not> rate_limited (post (Suc 0))" by simp_all
    with 2 show ?thesis by (simp add: retryRequest_retries retryRequest_passes)
  next
    case 3
    with assms have "rate_limited (post 0)" "rate_limited (post (Suc 0))"
      "\<not> rate_limited (post (Suc (Suc 0)))" by simp_all
    with 3 show ?thesis by (simp add: retryRequest_retries retryRequest_passes)
  next
    case 4
    with assms have "rate_limited (post 0)" "rate_limited (post (Suc 0))"
      "rate_limited (post (Suc (Suc 0)))" "\<not> rate_limited (post (Suc (Suc (Suc 0))))"
      by (simp_all add: less_Suc_eq)
    with 4 show ?thesis by (simp add: retryRequest_retries retryRequest_passes)
  qed
qed

lemma summarize_all_rate_limited:
  assumes "\<forall>n\<le>3. rate_limited (chat up (conversationText req) n)"
  shows "summarize_conversation up trim req =
           ((500, [(''error'', ''Failed to summarize conversation'')]),
            [Post chatUrl, Sleep 1000, Post chatUrl, Sleep 2000, Post chatUrl, Sleep 4000,
             Post chatUrl])"
proof -
  from assms have "rate_limited (chat up (conversationText req) 3)" by simp
  then obtain e where "chat up (conversationText req) 3 = Rejected e"
    by (auto simp: rate_limited_def split: promise.splits)
  with retryRequest_all_rate_limited [OF assms, of chatUrl] show ?thesis
    by (simp add: summarize_conversation_def)
qed

lemma detect_and_translate_missing_field:
  "falsy (body_text req) \<or> falsy (targetLanguage req) \<Longrightarrow>
     detect_and_translate up req =
       ((400, [(''error'', ''Both 'text' and 'targetLanguage' are required.'')]), [])"
  by (auto simp: detect_and_translate_def falsy_def split: option.splits)

section \<open>The claims\<close>

text \<open>
  Claim C1, as amended.  Take any state \<open>s\<close> the running server can reach in which
  \<^verbatim>\<open>rooms[r]\<close> is \<^verbatim>\<open>undefined\<close> and \<open>r\<close> is not the identifier of a connected
  socket, and pairwise distinct connected sockets \<open>cs\<close> none of whose identifiers names
  a room of the table.  After they send \<^verbatim>\<open>'join-room'\<close> for \<open>r\<close> one after the
  other, the member list of \<open>r\<close> is \<open>cs\<close> in join order, and the join of the \<open>i\<close>-th
  socket delivers \<^verbatim>\<open>'user-connected'\<close> with its identifier to exactly the sockets
  before it, once each and in join order; the first join delivers nothing.
\<close>

theorem C1_join_sequence:
  assumes "s = fst (run startup es)" and "\<not> crashed s"
    and "rooms_get (rooms s) r = Undefined" and "r \<notin> set (sockets s)"
    and "distinct cs" and "set cs \<subseteq> set (sockets s)"
    and "\<forall>c\<in>set cs. rooms s c = None"
    and "join_all s r cs = (s', outs)"
  shows "rooms s' r = (if cs = [] then None else Some cs) \<and>
         length outs = length cs \<and>
         (\<forall>i<length cs. outs ! i = map (\<lambda>d. (d, UserConnected (cs ! i))) (take i cs))"
proof -
  have ok: "adapter_ok s"
    unfolding assms(1) by (rule adapter_ok_run [OF adapter_ok_startup])
  from assms(3) have none: "rooms s r = None"
    by (simp add: rooms_get_def split: option.splits)
  have "rooms s' r = (if cs = [] then rooms s r else Some ([] @ cs)) \<and>
         length outs = length cs \<and>
         (\<forall>i<length cs. outs ! i = map (\<lambda>d. (d, UserConnected (cs ! i))) ([] @ take i cs))"
  proof (rule join_all_from_members [OF assms(2) _ _ _ _ _ _ _ assms(8)])
    show "rooms_get (rooms s) r \<noteq> Inherited" using assms(3) by simp
    show "members s r = []" using none by simp
    show "adapter s r = []" using adapter_of_unknown_room [OF ok none] assms(4) by simp
    show "distinct ([] @ cs)" using assms(5) by simp
    show "set ([] @ cs) \<subseteq> set (sockets s)" using assms(6) by simp
    show "adapter s c = [c]" if "c \<in> set cs" for c
      using that adapter_of_unknown_room [OF ok, of c] assms(6,7) by auto
    show "r \<notin> set cs" using assms(4,6) by auto
  qed
  with none show ?thesis by simp
qed

theorem C1_join_sequence_witness:
  "\<not> crashed (fst (run startup [Connection ''A'', Connection ''B'', Connection ''C'',
      Connection ''D'', JoinRoom ''D'' ''r0''])) \<and>
   rooms_get (rooms (fst (run startup [Connection ''A'', Connection ''B'', Connection ''C'',
      Connection ''D'', JoinRoom ''D'' ''r0'']))) ''r1'' = Undefined \<and>
   ''r1'' \<notin> set (sockets (fst (run startup [Connection ''A'', Connection ''B'', Connection ''C'',
      Connection ''D'', JoinRoom ''D'' ''r0'']))) \<and>
   distinct [''A'', ''B'', ''C''] \<and>
   set [''A'', ''B'', ''C''] \<subseteq> set (sockets (fst (run startup [Connection ''A'',
      Connection ''B'', Connection ''C'', Connection ''D'', JoinRoom ''D'' ''r0'']))) \<and>
   rooms (fst (run startup [Connection ''A'', Connection ''B'', Connection ''C'',
      Connection ''D'', JoinRoom ''D'' ''r0''])) ''A'' = None \<and>
   rooms (fst (run startup [Connection ''A'', Connection ''B'', Connection ''C'',
      Connection ''D'', JoinRoom ''D'' ''r0''])) ''B'' = None \<and>
   rooms (fst (run startup [Connection ''A'', Connection ''B'', Connection ''C'',
      Connection ''D'', JoinRoom ''D'' ''r0''])) ''C'' = None \<and>
   rooms (fst (join_all (fst (run startup [Connection ''A'', Connection ''B'', Connection ''C'',
      Connection ''D'', JoinRoom ''D'' ''r0''])) ''r1'' [''A'', ''B'', ''C''])) ''r1'' =
     Some [''A'', ''B'', ''C''] \<and>
   snd (join_all (fst (run startup [Connection ''A'', Connection ''B'', Connection ''C'',
      Connection ''D'', JoinRoom ''D'' ''r0''])) ''r1'' [''A'', ''B'', ''C'']) =
     [[], [(''A'', UserConnected ''B'')],
      [(''A'', UserConnected ''C''), (''B'', UserConnected ''C'')]]"
proof -
  let ?s = "fst (run startup [Connection ''A'', Connection ''B'', Connection ''C'',
      Connection ''D'', JoinRoom ''D'' ''r0''])"
  have h: "\<not> crashed ?s" "rooms_get (rooms ?s) ''r1'' = Undefined"
    "''r1'' \<notin> set (sockets ?s)" "distinct [''A'', ''B'', ''C'']"
    "set [''A'', ''B'', ''C''] \<subseteq> set (sockets ?s)"
    "\<forall>c\<in>set [''A'', ''B'', ''C'']. rooms ?s c = None"
    by (simp_all add: relay_defs)
  have j: "join_all ?s ''r1'' [''A'', ''B'', ''C''] =
      (fst (join_all ?s ''r1'' [''A'', ''B'', ''C'']), snd (join_all ?s ''r1'' [''A'', ''B'', ''C'']))"
    by simp
  from C1_join_sequence [OF refl h j]
  have "rooms (fst (join_all ?s ''r1'' [''A'', ''B'', ''C''])) ''r1'' = Some [''A'', ''B'', ''C'']"
    and l: "length (snd (join_all ?s ''r1'' [''A'', ''B'', ''C''])) = 3"
    and n: "\<And>i. i < 3 \<Longrightarrow> snd (join_all ?s ''r1'' [''A'', ''B'', ''C'']) ! i =
      map (\<lambda>d. (d, UserConnected ([''A'', ''B'', ''C''] ! i))) (take i [''A'', ''B'', ''C''])"
    by simp_all
  moreover from n [of 0] n [of 1] n [of 2] l
  have "snd (join_all ?s ''r1'' [''A'', ''B'', ''C'']) =
     [[], [(''A'', UserConnected ''B'')],
      [(''A'', UserConnected ''C''), (''B'', UserConnected ''C'')]]"
    by (auto simp: length_Suc_conv numeral_3_eq_3 numeral_2_eq_2)
  ultimately show ?thesis using h by simp
qed

text \<open>
  Without these conditions the claim fails.  A first joiner of a room named by the
  identifier of the connected socket \<open>X\<close> is announced to \<open>X\<close>, although the table had
  no such room.  A join of the room \<^verbatim>\<open>constructor\<close> throws and leaves no member list.
  And after \<open>A\<close> has joined the room named by \<open>B\<close>'s identifier, \<open>A\<close> is in the room
  that \<open>B\<close>'s broadcasts except, so \<open>B\<close>'s join of \<open>r1\<close> is not announced to \<open>A\<close>.
\<close>

theorem C1_join_sequence_counterexample:
  "rooms (fst (run startup [Connection ''X'', Connection ''A''])) ''X'' = None \<and>
   snd (join_all (fst (run startup [Connection ''X'', Connection ''A''])) ''X'' [''A''])
     = [[(''X'', UserConnected ''A'')]] \<and>
   rooms (fst (run startup [Connection ''A''])) ''constructor'' = None \<and>
   crashed (fst (join_all (fst (run startup [Connection ''A''])) ''constructor'' [''A''])) \<and>
   rooms (fst (join_all (fst (run startup [Connection ''A''])) ''constructor'' [''A'']))
     ''constructor'' = None \<and>
   rooms (fst (run startup [Connection ''A'', Connection ''B'', JoinRoom ''A'' ''B''])) ''r1'' = None \<and>
   snd (join_all (fst (run startup [Connection ''A'', Connection ''B'', JoinRoom ''A'' ''B'']))
          ''r1'' [''A'', ''B'']) = [[], []]"
  by (simp add: relay_defs)

text \<open>
  Claim C2.  After every finite sequence of events from the start of the server
  (connections, joins, signals and disconnects, also when a listener has thrown), no
  entry of the room table is an empty member list.  An event that gives the table an
  entry it did not have is a \<^verbatim>\<open>'join-room'\<close> for that identifier; and the run of the
  \<^verbatim>\<open>'disconnect'\<close> listener that filters the last member out deletes the entry in
  the same call.
\<close>

theorem C2_no_empty_room:
  "(rooms (fst (run startup es)) r = Some xs \<longrightarrow> xs \<noteq> []) \<and>
   (rooms s r = None \<and> rooms (fst (on_event s e)) r \<noteq> None \<longrightarrow> (\<exists>c. e = JoinRoom c r)) \<and>
   (rooms s r = Some ys \<and> set ys \<subseteq> {c} \<longrightarrow>
      (\<exists>s' out. disconnect_listener s c r = Inr (s', out) \<and> rooms s' r = None))"
  using no_empty_room_run [OF no_empty_room_startup, of es]
    room_created_by_join [of s r e] last_member_leaves [of s r ys c]
  by (simp add: no_empty_room_def)

theorem C2_no_empty_room_witness:
  "rooms (fst (run startup [Connection ''A'', Connection ''B'', JoinRoom ''A'' ''r1'',
        JoinRoom ''B'' ''r1'', Disconnect ''A''])) ''r1'' = Some [''B''] \<and> [''B''] \<noteq> [] \<and>
   rooms (fst (run startup [Connection ''A''])) ''r1'' = None \<and>
   rooms (fst (on_event (fst (run startup [Connection ''A''])) (JoinRoom ''A'' ''r1''))) ''r1''
     \<noteq> None \<and>
   (\<exists>c. JoinRoom ''A'' ''r1'' = JoinRoom c ''r1'') \<and>
   rooms (socket_close (fst (run startup [Connection ''A'', JoinRoom ''A'' ''r1''])) ''A'') ''r1''
     = Some [''A''] \<and>
   (\<exists>s' out. disconnect_listener
       (socket_close (fst (run startup [Connection ''A'', JoinRoom ''A'' ''r1''])) ''A'')
       ''A'' ''r1'' = Inr (s', out) \<and> rooms s' ''r1'' = None)"
proof -
  let ?es = "[Connection ''A'', Connection ''B'', JoinRoom ''A'' ''r1'',
        JoinRoom ''B'' ''r1'', Disconnect ''A'']"
  let ?s = "fst (run startup [Connection ''A''])"
  let ?t = "socket_close (fst (run startup [Connection ''A'', JoinRoom ''A'' ''r1''])) ''A''"
  have a: "rooms (fst (run startup ?es)) ''r1'' = Some [''B'']"
    by (simp add: relay_defs)
  have b: "rooms ?s ''r1'' = None \<and>
      rooms (fst (on_event ?s (JoinRoom ''A'' ''r1''))) ''r1'' \<noteq> None"
    by (simp add: relay_defs)
  have c: "rooms ?t ''r1'' = Some [''A''] \<and> set [''A''] \<subseteq> {''A''}"
    by (simp add: relay_defs)
  from C2_no_empty_room [of ?es "''r1''" "[''B'']" ?s "JoinRoom ''A'' ''r1''" "[''A'']" "''A''"]
    a b
  have 1: "[''B''] \<noteq> []" and 2: "\<exists>c. JoinRoom ''A'' ''r1'' = JoinRoom c ''r1''"
    by blast+
  from C2_no_empty_room [of ?es "''r1''" "[''B'']" ?t "JoinRoom ''A'' ''r1''" "[''A'']" "''A''"] c
  have 3: "\<exists>s' out. disconnect_listener ?t ''A'' ''r1'' = Inr (s', out) \<and> rooms s' ''r1'' = None"
    by blast
  from a b c 1 2 3 show ?thesis by blast
qed

text \<open>
  Claim C3, at the input the code mishandles.  Socket \<open>A\<close> has sent
  \<^verbatim>\<open>'join-room'\<close> for \<open>r1\<close> twice and closes as the only member.  Its first
  \<^verbatim>\<open>'disconnect'\<close> listener deletes the entry of \<open>r1\<close>; its second one then finds
  no entry and throws a \<^verbatim>\<open>TypeError\<close>, which ends the process.  (Lemma
  \<open>disconnect_listener_None\<close> shows the throw for every room without an entry.)
\<close>

theorem C3_disconnect_unknown_room:
  "disconnect_listener
     (socket_close (fst (run startup
        [Connection ''A'', JoinRoom ''A'' ''r1'', JoinRoom ''A'' ''r1''])) ''A'') ''A'' ''r1'' =
     Inr ((socket_close (fst (run startup
        [Connection ''A'', JoinRoom ''A'' ''r1'', JoinRoom ''A'' ''r1''])) ''A'')
          \<lparr>rooms := Map.empty\<rparr>, []) \<and>
   disconnect_listener
     ((socket_close (fst (run startup
        [Connection ''A'', JoinRoom ''A'' ''r1'', JoinRoom ''A'' ''r1''])) ''A'')
          \<lparr>rooms := Map.empty\<rparr>) ''A'' ''r1'' = Inl TypeError \<and>
   leave_twice
     (socket_close (fst (run startup
        [Connection ''A'', JoinRoom ''A'' ''r1'', JoinRoom ''A'' ''r1''])) ''A'') ''A'' ''r1'' =
     Inl TypeError \<and>
   crashed (fst (run startup
     [Connection ''A'', JoinRoom ''A'' ''r1'', JoinRoom ''A'' ''r1'', Disconnect ''A'']))"
  by (simp add: relay_defs leave_twice_def)

text \<open>
  Claim C4, as amended.  When the \<^verbatim>\<open>'disconnect'\<close> listener for a socket and a room
  has run and the room still has an entry (other members remain), running it again
  leaves the whole state as it is, and delivers \<^verbatim>\<open>'user-disconnected'\<close> once more
  to the same sockets: run twice, it notifies each of them twice.
\<close>

theorem C4_leave_twice:
  assumes "disconnect_listener s c r = Inr (s1, out)" and "rooms s1 r \<noteq> None"
  shows "disconnect_listener s1 c r = Inr (s1, out) \<and>
         leave_twice s c r = Inr (s1, out @ out)"
proof -
  from assms(1) obtain xs where xs: "rooms s r = Some xs"
    and s1: "s1 = s\<lparr>rooms := (if filter (\<lambda>i. i \<noteq> c) xs = [] then (rooms s)(r := None)
                             else (rooms s)(r \<mapsto> filter (\<lambda>i. i \<noteq> c) xs))\<rparr>"
    and out: "out = broadcast s r [c] (UserDisconnected c)"
    by (blast dest: disconnect_listener_Inr)
  from assms(2) have ne: "filter (\<lambda>i. i \<noteq> c) xs \<noteq> []"
    by (auto simp: s1)
  then have r1: "rooms s1 r = Some (filter (\<lambda>i. i \<noteq> c) xs)"
    by (simp add: s1)
  have "disconnect_listener s1 c r = Inr (s1, out)"
    using ne by (simp add: disconnect_listener_Some [OF r1] out) (simp add: s1 broadcast_def)
  with assms(1) show ?thesis by (simp add: leave_twice_def)
qed

theorem C4_leave_twice_witness:
  "disconnect_listener
     (socket_close (fst (run startup [Connection ''A'', Connection ''B'', JoinRoom ''A'' ''r1'',
        JoinRoom ''B'' ''r1''])) ''A'') ''A'' ''r1'' =
     Inr ((socket_close (fst (run startup [Connection ''A'', Connection ''B'', JoinRoom ''A'' ''r1'',
        JoinRoom ''B'' ''r1''])) ''A'')\<lparr>rooms := [''r1'' \<mapsto> [''B'']]\<rparr>, [(''B'', UserDisconnected ''A'')]) \<and>
   rooms ((socket_close (fst (run startup [Connection ''A'', Connection ''B'', JoinRoom ''A'' ''r1'',
        JoinRoom ''B'' ''r1''])) ''A'')\<lparr>rooms := [''r1'' \<mapsto> [''B'']]\<rparr>) ''r1'' \<noteq> None \<and>
   leave_twice
     (socket_close (fst (run startup [Connection ''A'', Connection ''B'', JoinRoom ''A'' ''r1'',
        JoinRoom ''B'' ''r1''])) ''A'') ''A'' ''r1'' =
     Inr ((socket_close (fst (run startup [Connection ''A'', Connection ''B'', JoinRoom ''A'' ''r1'',
        JoinRoom ''B'' ''r1''])) ''A'')\<lparr>rooms := [''r1'' \<mapsto> [''B'']]\<rparr>,
          [(''B'', UserDisconnected ''A''), (''B'', UserDisconnected ''A'')])"
proof -
  let ?s = "socket_close (fst (run startup [Connection ''A'', Connection ''B'', JoinRoom ''A'' ''r1'',
        JoinRoom ''B'' ''r1''])) ''A''"
  have first: "disconnect_listener ?s ''A'' ''r1'' =
      Inr (?s\<lparr>rooms := [''r1'' \<mapsto> [''B'']]\<rparr>, [(''B'', UserDisconnected ''A'')])"
    by (simp add: relay_defs)
  have still: "rooms (?s\<lparr>rooms := [''r1'' \<mapsto> [''B'']]\<rparr>) ''r1'' \<noteq> None"
    by simp
  from C4_leave_twice [OF first still] first still show ?thesis by simp
qed

text \<open>
  So the second run is not silent: with \<open>A\<close> and \<open>B\<close> in \<open>r1\<close>, one run for \<open>A\<close>
  notifies \<open>B\<close> once and two runs notify \<open>B\<close> twice; the server does run it twice when
  \<open>A\<close>, having joined \<open>r1\<close> twice, disconnects.
\<close>

theorem C4_leave_twice_counterexample:
  "map_sum id snd (disconnect_listener
     (socket_close (fst (run startup [Connection ''A'', Connection ''B'', JoinRoom ''A'' ''r1'',
        JoinRoom ''B'' ''r1''])) ''A'') ''A'' ''r1'') = Inr [(''B'', UserDisconnected ''A'')] \<and>
   map_sum id snd (leave_twice
     (socket_close (fst (run startup [Connection ''A'', Connection ''B'', JoinRoom ''A'' ''r1'',
        JoinRoom ''B'' ''r1''])) ''A'') ''A'' ''r1'') =
     Inr [(''B'', UserDisconnected ''A''), (''B'', UserDisconnected ''A'')] \<and>
   snd (on_event (fst (run startup [Connection ''A'', Connection ''B'', JoinRoom ''A'' ''r1'',
        JoinRoom ''A'' ''r1'', JoinRoom ''B'' ''r1''])) (Disconnect ''A'')) =
     [(''B'', UserDisconnected ''A''), (''B'', UserDisconnected ''A'')]"
  by (simp add: relay_defs leave_twice_def)

text \<open>
  Claim C5, as amended.  In every state the server can reach, for every sender \<open>a\<close>,
  payload \<open>p\<close> and target \<open>b\<close> that names no room of the table: the
  \<^verbatim>\<open>'signal'\<close> listener delivers exactly one packet, \<^verbatim>\<open>{sender: a, signal: p}\<close>,
  to \<open>b\<close> and to nobody else when \<open>b\<close> is a connected socket, whatever rooms \<open>a\<close> and
  \<open>b\<close> are in, and delivers nothing when \<open>b\<close> is not connected.  The listener has no
  failing branch.
\<close>

theorem C5_forward:
  assumes "s = fst (run startup es)" and "rooms s b = None"
  shows "signal_listener s a \<lparr>target = b, payload = p\<rparr> =
           (if b \<in> set (sockets s) then [(b, SignalPacket a p)] else [])"
proof -
  have "adapter_ok s"
    unfolding assms(1) by (rule adapter_ok_run [OF adapter_ok_startup])
  then show ?thesis using assms(2) by (rule signal_listener_unknown_room)
qed

theorem C5_forward_witness:
  "signal_listener (fst (run startup [Connection ''A'', Connection ''B'', JoinRoom ''A'' ''r1'']))
      ''A'' \<lparr>target = ''B'', payload = ''offer''\<rparr> = [(''B'', SignalPacket ''A'' ''offer'')] \<and>
   signal_listener (fst (run startup [Connection ''A'', Connection ''B'', JoinRoom ''A'' ''r1'']))
      ''A'' \<lparr>target = ''C'', payload = ''offer''\<rparr> = []"
  using C5_forward [of "fst (run startup [Connection ''A'', Connection ''B'', JoinRoom ''A'' ''r1''])"
      "[Connection ''A'', Connection ''B'', JoinRoom ''A'' ''r1'']" "''B''" "''A''" "''offer''"]
    C5_forward [of "fst (run startup [Connection ''A'', Connection ''B'', JoinRoom ''A'' ''r1''])"
      "[Connection ''A'', Connection ''B'', JoinRoom ''A'' ''r1'']" "''C''" "''A''" "''offer''"]
  by (simp add: relay_defs)

text \<open>
  The target is a room name for \<^verbatim>\<open>io.to\<close>, so the claim fails where the table has a
  room of that name: a signal that \<open>A\<close> addresses to \<open>r1\<close>, which is no connection,
  reaches the members \<open>A\<close> and \<open>B\<close> of room \<open>r1\<close>; and after \<open>C\<close> has joined the
  room named by \<open>B\<close>'s identifier, a signal addressed to the connected socket \<open>B\<close>
  reaches \<open>C\<close> as well.
\<close>

theorem C5_forward_counterexample:
  "''r1'' \<notin> set (sockets (fst (run startup
      [Connection ''A'', Connection ''B'', JoinRoom ''A'' ''r1'', JoinRoom ''B'' ''r1'']))) \<and>
   signal_listener (fst (run startup
      [Connection ''A'', Connection ''B'', JoinRoom ''A'' ''r1'', JoinRoom ''B'' ''r1'']))
      ''A'' \<lparr>target = ''r1'', payload = ''offer''\<rparr> =
        [(''A'', SignalPacket ''A'' ''offer''), (''B'', SignalPacket ''A'' ''offer'')] \<and>
   ''B'' \<in> set (sockets (fst (run startup
      [Connection ''A'', Connection ''B'', Connection ''C'', JoinRoom ''A'' ''r1'',
       JoinRoom ''C'' ''B'']))) \<and>
   signal_listener (fst (run startup
      [Connection ''A'', Connection ''B'', Connection ''C'', JoinRoom ''A'' ''r1'',
       JoinRoom ''C'' ''B'']))
      ''A'' \<lparr>target = ''B'', payload = ''offer''\<rparr> =
        [(''B'', SignalPacket ''A'' ''offer''), (''C'', SignalPacket ''A'' ''offer'')]"
  by (simp add: relay_defs)

text \<open>
  Claim C6.  When \<open>c\<close> is already in the member list \<open>xs\<close> of room \<open>r\<close>, the join
  listener succeeds and the list becomes \<open>xs @ [c]\<close>, with \<open>c\<close> a second time; when
  \<open>c\<close> then closes, one run of its \<^verbatim>\<open>'disconnect'\<close> listener leaves the list with
  every occurrence of \<open>c\<close> filtered out, or no entry when nothing else is left.
\<close>

theorem C6_duplicate_join:
  assumes "rooms s r = Some xs" and "c \<in> set xs"
  shows "\<exists>s1 out1 s2 out2.
           join_room s c r = Inr (s1, out1) \<and> rooms s1 r = Some (xs @ [c]) \<and>
           disconnect_listener (socket_close s1 c) c r = Inr (s2, out2) \<and>
           rooms s2 r = (if filter (\<lambda>i. i \<noteq> c) xs = [] then None
                         else Some (filter (\<lambda>i. i \<noteq> c) xs))"
proof -
  from assms(1) have "rooms_get (rooms s) r \<noteq> Inherited"
    by (simp add: rooms_get_def)
  from join_room_ok [OF this, of c] assms(1)
  obtain s1 out1 where j: "join_room s c r = Inr (s1, out1)" and r1: "rooms s1 r = Some (xs @ [c])"
    by simp
  from r1 have "rooms (socket_close s1 c) r = Some (xs @ [c])"
    by (simp add: socket_close_def)
  from disconnect_listener_Some [OF this, of c]
  obtain s2 out2 where d: "disconnect_listener (socket_close s1 c) c r = Inr (s2, out2)"
    and r2: "rooms s2 r = (if filter (\<lambda>i. i \<noteq> c) xs = [] then None
                         else Some (filter (\<lambda>i. i \<noteq> c) xs))"
    by simp
  from j r1 d r2 show ?thesis by blast
qed

theorem C6_duplicate_join_witness:
  "rooms (fst (run startup [Connection ''A'', Connection ''B'', JoinRoom ''A'' ''r1'',
        JoinRoom ''B'' ''r1''])) ''r1'' = Some [''A'', ''B''] \<and> ''A'' \<in> set [''A'', ''B''] \<and>
   (\<exists>s1 out1 s2 out2.
      join_room (fst (run startup [Connection ''A'', Connection ''B'', JoinRoom ''A'' ''r1'',
        JoinRoom ''B'' ''r1''])) ''A'' ''r1'' = Inr (s1, out1) \<and>
      rooms s1 ''r1'' = Some [''A'', ''B'', ''A''] \<and>
      disconnect_listener (socket_close s1 ''A'') ''A'' ''r1'' = Inr (s2, out2) \<and>
      rooms s2 ''r1'' = Some [''B''])"
proof -
  have r: "rooms (fst (run startup [Connection ''A'', Connection ''B'', JoinRoom ''A'' ''r1'',
        JoinRoom ''B'' ''r1''])) ''r1'' = Some [''A'', ''B'']"
    by (simp add: relay_defs)
  have m: "''A'' \<in> set [''A'', ''B'']" by simp
  from C6_duplicate_join [OF r m] r m show ?thesis by simp
qed

text \<open>
  Claim C7.  With the default arguments the summarization endpoint passes, when every
  attempt is answered with status 429, \<^verbatim>\<open>retryRequest\<close> posts four times, sleeps
  1000, 2000 and 4000 milliseconds between the posts, and returns the last rejection;
  the endpoint then answers 500.  Whenever the attempt number \<open>j\<close> (after \<open>j\<close>
  rate-limited ones, \<open>j\<close> at most 3) is answered with anything else, a response or an
  error that is not a 429, that outcome is returned at once, after exactly the first
  \<open>j\<close> delays: for \<open>j = 0\<close>, an error other than 429 is returned after a single post
  and no delay.
\<close>

theorem C7_retry_policy:
  "((\<forall>n\<le>3. rate_limited (post n)) \<longrightarrow>
      retryRequest post url 0 3 1000 =
        (post 3, [Post url, Sleep 1000, Post url, Sleep 2000, Post url, Sleep 4000, Post url])) \<and>
   (\<forall>j\<le>3. (\<forall>i<j. rate_limited (post i)) \<and> \<not> rate_limited (post j) \<longrightarrow>
      retryRequest post url 0 3 1000 =
        (post j, concat (map (\<lambda>d. [Post url, Sleep d]) (take j [1000, 2000, 4000])) @ [Post url])) \<and>
   ((\<forall>n\<le>3. rate_limited (chat up (conversationText req) n)) \<longrightarrow>
      summarize_conversation up trim req =
        ((500, [(''error'', ''Failed to summarize conversation'')]),
         [Post chatUrl, Sleep 1000, Post chatUrl, Sleep 2000, Post chatUrl, Sleep 4000,
          Post chatUrl]))"
  by (simp add: retryRequest_all_rate_limited retryRequest_settles summarize_all_rate_limited)

theorem C7_retry_policy_witness:
  "retryRequest (\<lambda>n. Rejected (AxiosError (Some 429) ''Too Many Requests'') :: chat_data promise)
      chatUrl 0 3 1000 =
     (Rejected (AxiosError (Some 429) ''Too Many Requests''),
      [Post chatUrl, Sleep 1000, Post chatUrl, Sleep 2000, Post chatUrl, Sleep 4000, Post chatUrl]) \<and>
   retryRequest (\<lambda>n. if n < 2 then Rejected (AxiosError (Some 429) ''Too Many Requests'')
                      else Resolved (Content ''a summary'')) chatUrl 0 3 1000 =
     (Resolved (Content ''a summary''),
      [Post chatUrl, Sleep 1000, Post chatUrl, Sleep 2000, Post chatUrl]) \<and>
   retryRequest (\<lambda>n. Rejected (AxiosError (Some 401) ''Unauthorized'') :: chat_data promise)
      chatUrl 0 3 1000 =
     (Rejected (AxiosError (Some 401) ''Unauthorized''), [Post chatUrl]) \<and>
   summarize_conversation
      \<lparr>detect = (\<lambda>q. Resolved NoDetections), translate = (\<lambda>q s t. Resolved NoTranslations),
       chat = (\<lambda>c n. Rejected (AxiosError (Some 429) ''Too Many Requests''))\<rparr>
      (\<lambda>x. x) \<lparr>conversationText = Some ''hello''\<rparr> =
     ((500, [(''error'', ''Failed to summarize conversation'')]),
      [Post chatUrl, Sleep 1000, Post chatUrl, Sleep 2000, Post chatUrl, Sleep 4000, Post chatUrl])"
proof -
  let ?limited = "\<lambda>n::nat. Rejected (AxiosError (Some 429) ''Too Many Requests'') :: chat_data promise"
  let ?twice = "\<lambda>n::nat. if n < 2 then Rejected (AxiosError (Some 429) ''Too Many Requests'')
                      else Resolved (Content ''a summary'')"
  let ?denied = "\<lambda>n::nat. Rejected (AxiosError (Some 401) ''Unauthorized'') :: chat_data promise"
  let ?up = "\<lparr>detect = (\<lambda>q. Resolved NoDetections), translate = (\<lambda>q s t. Resolved NoTranslations),
       chat = (\<lambda>c n. Rejected (AxiosError (Some 429) ''Too Many Requests''))\<rparr>"
  let ?req = "\<lparr>conversationText = Some ''hello''\<rparr>"
  have a: "\<forall>n\<le>3. rate_limited (?limited n)"
    by (simp add: rate_limited_def)
  have b: "(2::nat) \<le> 3 \<and> (\<forall>i<2. rate_limited (?twice i)) \<and> \<not> rate_limited (?twice 2)"
    by (simp add: rate_limited_def)
  have c: "(0::nat) \<le> 3 \<and> (\<forall>i<0. rate_limited (?denied i)) \<and> \<not> rate_limited (?denied 0)"
    by (simp add: rate_limited_def)
  have d: "\<forall>n\<le>3. rate_limited (chat ?up (conversationText ?req) n)"
    by (simp add: rate_limited_def)
  from C7_retry_policy [of ?limited chatUrl ?up ?req "\<lambda>x. x"] a
  have 1: "retryRequest ?limited chatUrl 0 3 1000 =
     (?limited 3,
      [Post chatUrl, Sleep 1000, Post chatUrl, Sleep 2000, Post chatUrl, Sleep 4000, Post chatUrl])"
    by blast
  from C7_retry_policy [of ?twice chatUrl ?up ?req "\<lambda>x. x"] b
  have 2: "retryRequest ?twice chatUrl 0 3 1000 =
     (?twice 2, concat (map (\<lambda>d. [Post chatUrl, Sleep d]) (take 2 [1000, 2000, 4000])) @ [Post chatUrl])"
    by blast
  from C7_retry_policy [of ?denied chatUrl ?up ?req "\<lambda>x. x"] c
  have 3: "retryRequest ?denied chatUrl 0 3 1000 =
     (?denied 0, concat (map (\<lambda>d. [Post chatUrl, Sleep d]) (take 0 [1000, 2000, 4000])) @ [Post chatUrl])"
    by blast
  from C7_retry_policy [of ?limited chatUrl ?up ?req "\<lambda>x. x"] d
  have 4: "summarize_conversation ?up (\<lambda>x. x) ?req =
        ((500, [(''error'', ''Failed to summarize conversation'')]),
         [Post chatUrl, Sleep 1000, Post chatUrl, Sleep 2000, Post chatUrl, Sleep 4000,
          Post chatUrl])"
    by blast
  from 1 2 3 4 show ?thesis by (simp add: numeral_2_eq_2)
qed

text \<open>
  Claim C8, at the request the code mishandles.  A request to
  \<^verbatim>\<open>/summarize-conversation\<close> without \<^verbatim>\<open>conversationText\<close> is never answered with
  400: whatever the upstream does, the handler posts to the chat completion URL first and
  answers 200 or 500.  (For \<^verbatim>\<open>/detect-and-translate\<close> the claim holds: lemma
  \<open>detect_and_translate_missing_field\<close>.)
\<close>

theorem C8_summarize_missing_field:
  "(fst (fst (summarize_conversation up trim \<lparr>conversationText = None\<rparr>)) = 200 \<or>
    fst (fst (summarize_conversation up trim \<lparr>conversationText = None\<rparr>)) = 500) \<and>
   (\<exists>rest. snd (summarize_conversation up trim \<lparr>conversationText = None\<rparr>) = Post chatUrl # rest)"
proof -
  obtain r tr where rt: "retryRequest (chat up None) chatUrl 0 3 1000 = (r, tr)"
    by (cases "retryRequest (chat up None) chatUrl 0 3 1000")
  with retryRequest_first_post [of "chat up None" chatUrl 0 3 1000]
  obtain rest where "tr = Post chatUrl # rest" by auto
  with rt show ?thesis
    by (auto simp: summarize_conversation_def split: promise.splits chat_data.splits)
qed

text \<open>
  Claim C9.  For every request to \<^verbatim>\<open>/detect-and-translate\<close> that passes validation
  (both members present and not empty) and whose detection call yields the requested
  target language, the response is 200 with \<^verbatim>\<open>detectedLanguage\<close>, the unmodified
  input as \<^verbatim>\<open>translatedText\<close> and the message; the only upstream call is the
  detection call, and nothing is posted to the translation URL.
\<close>

theorem C9_same_language:
  assumes "body_text req = Some txt" and "txt \<noteq> []"
    and "targetLanguage req = Some tgt" and "tgt \<noteq> []"
    and "detect up txt = Resolved (Language tgt)"
  shows "detect_and_translate up req =
           ((200, [(''detectedLanguage'', tgt), (''translatedText'', txt),
                   (''message'', ''The detected language is the same as the target language.'')]),
            [Post detectUrl]) \<and>
         Post translateUrl \<notin> set (snd (detect_and_translate up req))"
  using assms
  by (simp add: detect_and_translate_def falsy_def detectUrl_def translateUrl_def)

theorem C9_same_language_witness:
  "detect_and_translate
     \<lparr>detect = (\<lambda>q. Resolved (Language ''es'')),
      translate = (\<lambda>q s t. Resolved (Translation ''not used'')),
      chat = (\<lambda>c n. Resolved (Content ''not used''))\<rparr>
     \<lparr>body_text = Some ''Hola'', targetLanguage = Some ''es''\<rparr> =
   ((200, [(''detectedLanguage'', ''es''), (''translatedText'', ''Hola''),
           (''message'', ''The detected language is the same as the target language.'')]),
    [Post detectUrl])"
  using C9_same_language [of "\<lparr>body_text = Some ''Hola'', targetLanguage = Some ''es''\<rparr>"
      "''Hola''" "''es''"
      "\<lparr>detect = (\<lambda>q. Resolved (Language ''es'')),
      translate = (\<lambda>q s t. Resolved (Translation ''not used'')),
      chat = (\<lambda>c n. Resolved (Content ''not used''))\<rparr>"]
  by simp

text \<open>
  Claim C10.  A socket for which no \<^verbatim>\<open>'join-room'\<close> event has arrived since the
  server started has no \<^verbatim>\<open>'signal'\<close> and no \<^verbatim>\<open>'disconnect'\<close> listener: a
  \<^verbatim>\<open>'signal'\<close> event from it delivers nothing, and its disconnect leaves the room
  table as it is and delivers nothing.
\<close>

theorem C10_never_joined:
  assumes "s = fst (run startup es)" and "\<forall>r. JoinRoom c r \<notin> set es"
  shows "snd (on_event s (Signal c d)) = [] \<and>
         rooms (fst (on_event s (Disconnect c))) = rooms s \<and>
         snd (on_event s (Disconnect c)) = []"
proof -
  have "disconnect_listeners s c = [] \<and> signal_listeners s c = 0"
    unfolding assms(1) using assms(2)
    by (intro no_listeners_run) (simp_all add: startup_def)
  then show ?thesis
    by (simp add: on_event_def socket_close_def)
qed

theorem C10_never_joined_witness:
  "(\<forall>r. JoinRoom ''A'' r \<notin> set [Connection ''A'', Connection ''B'', JoinRoom ''B'' ''r1'']) \<and>
   ''A'' \<in> set (sockets (fst (run startup [Connection ''A'', Connection ''B'', JoinRoom ''B'' ''r1'']))) \<and>
   snd (on_event (fst (run startup [Connection ''A'', Connection ''B'', JoinRoom ''B'' ''r1'']))
          (Signal ''A'' \<lparr>target = ''B'', payload = ''offer''\<rparr>)) = [] \<and>
   rooms (fst (on_event (fst (run startup [Connection ''A'', Connection ''B'', JoinRoom ''B'' ''r1'']))
          (Disconnect ''A''))) =
     rooms (fst (run startup [Connection ''A'', Connection ''B'', JoinRoom ''B'' ''r1''])) \<and>
   snd (on_event (fst (run startup [Connection ''A'', Connection ''B'', JoinRoom ''B'' ''r1'']))
          (Disconnect ''A'')) = []"
  using C10_never_joined [of "fst (run startup [Connection ''A'', Connection ''B'', JoinRoom ''B'' ''r1''])"
      "[Connection ''A'', Connection ''B'', JoinRoom ''B'' ''r1'']" "''A''"
      "\<lparr>target = ''B'', payload = ''offer''\<rparr>"]
  by (simp add: relay_defs)

end
